theory Spec2Isabelle
  imports Main "HOL-Library.Word"
begin

section \<open>Header codec\<close>

text \<open>
  The source declares \<^verbatim>\<open>type RawHeaders = Array<[key: string, value: string]>\<close>:
  an ordered list of key/value tuples, duplicates and order kept.
\<close>

type_synonym RawHeaders = "(string \<times> string) list"

subsection \<open>JavaScript arrays\<close>

text \<open>
  A JavaScript array is modelled as a list of slots; \<open>None\<close> is a hole (an index below
  \<^verbatim>\<open>length\<close> that was never assigned). A typed array without holes is the image of a
  list under \<open>js_array\<close>.
\<close>

definition js_array :: "'a list \<Rightarrow> 'a option list" where
  "js_array xs = map Some xs"

text \<open>
  \<^verbatim>\<open>xs[i]\<close> on a dense array: the element, or \<^verbatim>\<open>undefined\<close> (\<open>None\<close>) when
  \<open>i\<close> is not below the length. Nothing is raised.
\<close>

definition js_index :: "'a list \<Rightarrow> nat \<Rightarrow> 'a option" where
  "js_index xs i = (if i < length xs then Some (xs ! i) else None)"

text \<open>
  \<^verbatim>\<open>xs[j] = v\<close>: overwrites slot \<open>j\<close> when it exists; otherwise the array grows to
  length \<open>j + 1\<close>, the slots in between staying holes.
\<close>

definition js_store :: "'a option list \<Rightarrow> nat \<Rightarrow> 'a \<Rightarrow> 'a option list" where
  "js_store xs j v =
     (if j < length xs then xs[j := Some v]
      else xs @ replicate (j - length xs) None @ [Some v])"

text \<open>
  \<^verbatim>\<open>Array.prototype.flat()\<close> with the default depth 1, on an array whose elements are
  arrays: the elements of each inner array in order, holes of the outer array skipped.
\<close>

definition js_flat :: "'a list option list \<Rightarrow> 'a list" where
  "js_flat xss = concat (map (\<lambda>slot. case slot of None \<Rightarrow> [] | Some xs \<Rightarrow> xs) xss)"

subsection \<open>pairFlatRawHeaders\<close>

text \<open>
  An entry built by \<^verbatim>\<open>[flatRawHeaders[i], flatRawHeaders[i+1]]\<close>: both components are
  the results of index reads, so each is a string or \<^verbatim>\<open>undefined\<close>.
\<close>

type_synonym entry = "string option \<times> string option"

text \<open>
  The loop of the source,
  \<^verbatim>\<open>for (let i = 0; i < flatRawHeaders.length; i += 2) {
      result[i/2] = [flatRawHeaders[i], flatRawHeaders[i+1]];
  }\<close>
  with the loop variable and the array under construction as arguments. The variable
  \<open>i\<close> only takes even values, where the JavaScript quotient \<^verbatim>\<open>i/2\<close> is the integer
  \<open>i div 2\<close>.
\<close>

function pairLoop :: "string list \<Rightarrow> nat \<Rightarrow> entry option list \<Rightarrow> entry option list" where
  "pairLoop flatRawHeaders i result =
     (if i < length flatRawHeaders
      then pairLoop flatRawHeaders (i + 2)
             (js_store result (i div 2)
                (js_index flatRawHeaders i, js_index flatRawHeaders (i + 1)))
      else result)"
  by pat_completeness auto
termination
  by (relation "measure (\<lambda>(flatRawHeaders, i, result). length flatRawHeaders - i)") auto

declare pairLoop.simps [simp del]

definition pairFlatRawHeaders :: "string list \<Rightarrow> entry option list" where
  "pairFlatRawHeaders flatRawHeaders = pairLoop flatRawHeaders 0 []"

subsection \<open>flattenPairedRawHeaders\<close>

text \<open>
  \<^verbatim>\<open>return rawHeaders.flat();\<close> Each tuple is a two-element array. The function is
  typed on \<^verbatim>\<open>RawHeaders\<close> but runs on whatever array of tuples it is handed, so the
  component type is left open: strings for a caller's headers, possibly-undefined strings
  for the output of \<open>pairFlatRawHeaders\<close>.
\<close>

definition tuple_array :: "'a \<times> 'a \<Rightarrow> 'a list" where
  "tuple_array t = [fst t, snd t]"

definition flattenPairedRawHeaders :: "('a \<times> 'a) option list \<Rightarrow> 'a list" where
  "flattenPairedRawHeaders rawHeaders = js_flat (map (map_option tuple_array) rawHeaders)"

text \<open>The entry \<^verbatim>\<open>[k, v]\<close> whose two components are both present.\<close>

definition defined_entry :: "string \<times> string \<Rightarrow> entry" where
  "defined_entry t = (Some (fst t), Some (snd t))"


section \<open>Platform objects\<close>

text \<open>
  \<open>sendRequest\<close> works on objects of the JavaScript platform: a WHATWG \<^verbatim>\<open>URL\<close>, a
  \<^verbatim>\<open>http.ClientRequest\<close>, a \<^verbatim>\<open>stream.Readable\<close>, a promise and two clocks. Each is
  modelled by a record of the state the source reads or changes and one function per
  method the source calls, following Node's \<^verbatim>\<open>_http_outgoing\<close> and \<^verbatim>\<open>_http_client\<close>.
  What depends on the URL parser, on the agent and on the clocks is a parameter, collected
  in the record \<open>Platform\<close>. Strings are sequences of code units below 256.
\<close>

type_synonym bytes = "8 word list"

text \<open>A JavaScript \<^verbatim>\<open>number\<close> holding a clock reading. Readings are carried, never computed with.\<close>

type_synonym number = int

datatype Error =
    ERR_INVALID_URL
  | ERR_REQUEST_REJECTED
  | ERR_STREAM_PUSH_AFTER_EOF
  | TransportError string
  | ERR_INVALID_ARG_VALUE
  | ERR_INVALID_HTTP_TOKEN
  | ERR_INVALID_CHAR
  | ERR_HTTP_TRAILER_INVALID

subsection \<open>Characters\<close>

definition ascii_upper :: "char \<Rightarrow> char" where
  "ascii_upper c =
     (case map_of (zip ''abcdefghijklmnopqrstuvwxyz'' ''ABCDEFGHIJKLMNOPQRSTUVWXYZ'') c of
        None \<Rightarrow> c | Some u \<Rightarrow> u)"

definition ascii_lower :: "char \<Rightarrow> char" where
  "ascii_lower c =
     (case map_of (zip ''ABCDEFGHIJKLMNOPQRSTUVWXYZ'' ''abcdefghijklmnopqrstuvwxyz'') c of
        None \<Rightarrow> c | Some l \<Rightarrow> l)"

text \<open>The word characters of a regular expression: letters, digits and the underscore.\<close>

definition word_char :: "char \<Rightarrow> bool" where
  "word_char c \<longleftrightarrow>
     c \<in> set ''abcdefghijklmnopqrstuvwxyzABCDEFGHIJKLMNOPQRSTUVWXYZ0123456789_''"

subsection \<open>URL\<close>

text \<open>
  The fields of a parsed URL that the source and the transport read. The getter
  \<^verbatim>\<open>url.protocol\<close> is the scheme followed by a colon (\<^verbatim>\<open>'http:'\<close>, \<^verbatim>\<open>'https:'\<close>).
\<close>

record URL =
  scheme :: string
  host :: string
  pathname :: string
  search :: string

definition protocol :: "URL \<Rightarrow> string" where
  "protocol u = scheme u @ '':''"

subsection \<open>Platform parameters\<close>

datatype Transport = Http | Https

text \<open>
  \<^item> \<open>parseURL s\<close>: \<^verbatim>\<open>new URL(s)\<close>; \<open>None\<close> when the constructor throws.
  \<^item> \<open>requestAccepted t s m\<close>: whether \<^verbatim>\<open>t.request(s, {method: m, ...})\<close> returns a
    request object rather than throwing (the transport checks the method token, the
    protocol and the path of the URL it is given).
  \<^item> \<open>agentKeepAlive\<close>: whether the agent of the transport reuses connections, which
    decides between \<^verbatim>\<open>keep-alive\<close> and \<^verbatim>\<open>close\<close> when the transport adds a
    \<^verbatim>\<open>Connection\<close> header by itself.
  \<^item> \<open>date_now\<close>, \<open>performance_now\<close>: the readings of \<^verbatim>\<open>Date.now()\<close> and
    \<^verbatim>\<open>performance.now()\<close> during the call of \<open>sendRequest\<close>.
\<close>

record Platform =
  parseURL :: "string \<Rightarrow> URL option"
  requestAccepted :: "Transport \<Rightarrow> string \<Rightarrow> string \<Rightarrow> bool"
  agentKeepAlive :: bool
  date_now :: number
  performance_now :: number

subsection \<open>ClientRequest\<close>

text \<open>
  The outgoing message:
  \<^item> \<open>outHeaders\<close>: the header map filled by \<^verbatim>\<open>setHeader\<close>, name and value;
  \<^item> \<open>removedConnection\<close>, \<open>removedContLen\<close>, \<open>removedTE\<close>: set by \<^verbatim>\<open>removeHeader\<close>;
  \<^item> \<open>shouldKeepAlive\<close>, \<open>useChunkedEncodingByDefault\<close>: fixed by the constructor;
  \<^item> \<open>chunkedEncoding\<close>: whether the body is written in chunked framing;
  \<^item> \<open>header\<close>: the first line and the header block, as the flat list of names and
    values in the order they are written, once the header is stored;
  \<^item> \<open>body\<close>: the bytes written after the header block;
  \<^item> \<open>finished\<close>, \<open>aborted\<close>, \<open>request_destroyed\<close>: set by \<^verbatim>\<open>end\<close>, \<^verbatim>\<open>abort\<close> and
    \<^verbatim>\<open>destroy\<close>.
\<close>

record ClientRequest =
  transport :: Transport
  request_method :: string
  request_path :: string
  signal_given :: bool
  outHeaders :: "(string \<times> string) list"
  removedConnection :: bool
  removedContLen :: bool
  removedTE :: bool
  shouldKeepAlive :: bool
  useChunkedEncodingByDefault :: bool
  chunkedEncoding :: bool
  header :: "(string \<times> string list) option"
  body :: bytes
  finished :: bool
  aborted :: bool
  request_destroyed :: bool

text \<open>
  \<^verbatim>\<open>transport.request(url, { method, signal })\<close>. The constructor keeps the method in upper
  case, \<^verbatim>\<open>GET\<close> for an empty one, and the path (pathname and query) of the URL, \<^verbatim>\<open>/\<close>
  for an empty one; it puts a \<^verbatim>\<open>Host\<close> header into the header map; nothing is written
  yet.
\<close>

definition request :: "Platform \<Rightarrow> Transport \<Rightarrow> string \<Rightarrow> string \<Rightarrow> bool \<Rightarrow> Error + ClientRequest" where
  "request p t s m sig =
     (case parseURL p s of
        None \<Rightarrow> Inl ERR_INVALID_URL
      | Some u \<Rightarrow>
          if requestAccepted p t s m
          then
            let meth = (if m = [] then ''GET'' else map ascii_upper m);
                path = (if pathname u @ search u = [] then ''/'' else pathname u @ search u)
            in Inr \<lparr> transport = t, request_method = meth,
                     request_path = path, signal_given = sig,
                     outHeaders = (if host u = [] then [] else [(''Host'', host u)]),
                     removedConnection = False, removedContLen = False, removedTE = False,
                     shouldKeepAlive = agentKeepAlive p,
                     useChunkedEncodingByDefault =
                       (meth \<notin> set [''GET'', ''HEAD'', ''DELETE'', ''OPTIONS'', ''TRACE'', ''CONNECT'']),
                     chunkedEncoding = False,
                     header = None, body = [], finished = False,
                     aborted = False, request_destroyed = False \<rparr>
          else Inl ERR_REQUEST_REJECTED)"

text \<open>
  \<^verbatim>\<open>request.removeHeader(name)\<close>: sets the flag of the lower-cased name and deletes the
  name from the header map.
\<close>

definition removeHeader :: "string \<Rightarrow> ClientRequest \<Rightarrow> ClientRequest" where
  "removeHeader name r =
     (let key = map ascii_lower name in
      r\<lparr> removedConnection := removedConnection r \<or> key = ''connection'',
         removedContLen := removedContLen r \<or> key = ''content-length'',
         removedTE := removedTE r \<or> key = ''transfer-encoding'',
         outHeaders := filter (\<lambda>h. map ascii_lower (fst h) \<noteq> key) (outHeaders r) \<rparr>)"

text \<open>
  Header validation. A name is valid when it is not empty and consists of letters, digits
  and the characters \<^verbatim>\<open>^ _ ` - ! # $ % & ' * + . | ~\<close> (an HTTP token); a value is invalid
  when it has a control character other than the tabulator (a code below 32 other than 9,
  or 127).
\<close>

definition token_char :: "char \<Rightarrow> bool" where
  "token_char c \<longleftrightarrow>
     c \<in> set ''^_`abcdefghijklmnopqrstuvwxyzABCDEFGHIJKLMNOPQRSTUVWXYZ-0123456789!#$%&*+.|~'' \<or>
     c = CHR 0x27"

definition checkIsHttpToken :: "string \<Rightarrow> bool" where
  "checkIsHttpToken val \<longleftrightarrow> val \<noteq> [] \<and> list_all token_char val"

definition invalid_header_char :: "char \<Rightarrow> bool" where
  "invalid_header_char c \<longleftrightarrow>
     ((of_char c :: nat) < 32 \<and> (of_char c :: nat) \<noteq> 9) \<or> (of_char c :: nat) = 127"

definition checkInvalidHeaderChar :: "string \<Rightarrow> bool" where
  "checkInvalidHeaderChar val = list_ex invalid_header_char val"

text \<open>
  The loop of \<^verbatim>\<open>_storeHeader\<close> over a flat header array,
  \<^verbatim>\<open>for (n = 0; n < headers.length; n += 2) processHeader(this, state, headers[n], headers[n+1], true)\<close>,
  as far as it can throw: the name is validated first, then the value. The array has even
  length here.
\<close>

fun validateHeaders :: "string list \<Rightarrow> Error option" where
  "validateHeaders (name # val # rest) =
     (if \<not> checkIsHttpToken name then Some ERR_INVALID_HTTP_TOKEN
      else if checkInvalidHeaderChar val then Some ERR_INVALID_CHAR
      else validateHeaders rest)"
| "validateHeaders rest = None"

text \<open>
  What \<^verbatim>\<open>matchHeader\<close> finds in the array: the values of the headers whose lower-cased
  name is the given one.
\<close>

fun header_values :: "string \<Rightarrow> string list \<Rightarrow> string list" where
  "header_values key (name # val # rest) =
     (if map ascii_lower name = key then val # header_values key rest
      else header_values key rest)"
| "header_values key rest = []"

definition has_header :: "string \<Rightarrow> string list \<Rightarrow> bool" where
  "has_header key hs \<longleftrightarrow> header_values key hs \<noteq> []"

text \<open>
  The test of a \<^verbatim>\<open>Transfer-Encoding\<close> value: the word \<^verbatim>\<open>chunked\<close> in any case, with no word character
  right before or right after it. The flag says whether the position is at the start of
  the value or right after a character that is not a word character.
\<close>

fun chunked_from :: "bool \<Rightarrow> string \<Rightarrow> bool" where
  "chunked_from boundary [] = False"
| "chunked_from boundary (c # cs) =
     ((boundary \<and> map ascii_lower (take 7 (c # cs)) = ''chunked'' \<and>
       (case drop 7 (c # cs) of [] \<Rightarrow> True | d # ds \<Rightarrow> \<not> word_char d)) \<or>
      chunked_from (\<not> word_char c) cs)"

definition RE_TE_CHUNKED :: "string \<Rightarrow> bool" where
  "RE_TE_CHUNKED val = chunked_from True val"

text \<open>
  \<^verbatim>\<open>request._storeHeader(firstLine, headers)\<close> with a flat array of strings. It throws for
  an array of odd length, for an invalid name or value, and for a \<^verbatim>\<open>Trailer\<close> header on a
  message that is not chunked. It writes the headers of the array in order; the header map
  is not consulted. After them it adds by itself
  \<^item> a \<^verbatim>\<open>Connection\<close> header, unless the array has one or it was removed;
  \<^item> when the array has neither \<^verbatim>\<open>Content-Length\<close> nor \<^verbatim>\<open>Transfer-Encoding\<close> and the
    method takes a body by default: \<^verbatim>\<open>Transfer-Encoding: chunked\<close>, unless that was
    removed (the content length is not known yet at this point, so no
    \<^verbatim>\<open>Content-Length\<close> is added).
  The message is chunked when a \<^verbatim>\<open>Transfer-Encoding\<close> value of the array matches
  \<open>RE_TE_CHUNKED\<close> or the transport added the header itself.
\<close>

definition storeHeader :: "string \<Rightarrow> string list \<Rightarrow> ClientRequest \<Rightarrow> Error + ClientRequest" where
  "storeHeader firstLine hs r =
     (if odd (length hs) then Inl ERR_INVALID_ARG_VALUE
      else case validateHeaders hs of
        Some e \<Rightarrow> Inl e
      | None \<Rightarrow>
          let connection =
                (if removedConnection r \<or> has_header ''connection'' hs then []
                 else [''Connection'', if shouldKeepAlive r then ''keep-alive'' else ''close'']);
              framing =
                (if has_header ''content-length'' hs \<or> has_header ''transfer-encoding'' hs then []
                 else if \<not> useChunkedEncodingByDefault r then []
                 else if \<not> removedTE r then [''Transfer-Encoding'', ''chunked'']
                 else []);
              chunked =
                (list_ex RE_TE_CHUNKED (header_values ''transfer-encoding'' hs) \<or> framing \<noteq> [])
          in if \<not> chunked \<and> has_header ''trailer'' hs then Inl ERR_HTTP_TRAILER_INVALID
             else Inr (r\<lparr> header := Some (firstLine, hs @ connection @ framing),
                          chunkedEncoding := chunked \<rparr>))"

text \<open>\<^verbatim>\<open>len.toString(16)\<close> as ASCII bytes: the digits of \<open>n\<close> in base 16, lower case.\<close>

definition hex_digit :: "nat \<Rightarrow> 8 word" where
  "hex_digit d = (if d < 10 then of_nat (48 + d) else of_nat (87 + d))"

function toString16 :: "nat \<Rightarrow> bytes" where
  "toString16 n = (if n < 16 then [hex_digit n] else toString16 (n div 16) @ [hex_digit (n mod 16)])"
  by pat_completeness auto
termination
  by (relation "measure (\<lambda>n. n)") auto

declare toString16.simps [simp del]

definition crlf :: bytes where
  "crlf = [13, 10]"

text \<open>
  \<^verbatim>\<open>request.end(chunk)\<close> and \<^verbatim>\<open>request.end()\<close>. A chunk goes out as it is, or on a chunked
  message, when it is not empty, as its length in base 16, CRLF, the chunk, CRLF. A chunked
  message is then closed by the last chunk \<^verbatim>\<open>0 CRLF CRLF\<close>.
\<close>

definition end_request :: "bytes option \<Rightarrow> ClientRequest \<Rightarrow> ClientRequest" where
  "end_request chunk r =
     (let written =
            (case chunk of
               None \<Rightarrow> []
             | Some b \<Rightarrow>
                 if chunkedEncoding r \<and> length b \<noteq> 0
                 then toString16 (length b) @ crlf @ b @ crlf
                 else b);
          last_chunk = (if chunkedEncoding r then [48] @ crlf @ crlf else [])
      in r\<lparr> body := body r @ written @ last_chunk, finished := True \<rparr>)"

definition abort_request :: "ClientRequest \<Rightarrow> ClientRequest" where
  "abort_request r = r\<lparr>aborted := True\<rparr>"

definition destroy_request :: "ClientRequest \<Rightarrow> ClientRequest" where
  "destroy_request r = r\<lparr>request_destroyed := True\<rparr>"

text \<open>The header block that goes on the wire; \<open>None\<close> while no header is stored.\<close>

definition wire_headers :: "ClientRequest \<Rightarrow> string list option" where
  "wire_headers r = map_option snd (header r)"

subsection \<open>Response stream events\<close>

datatype ResponseStreamEvents =
    is_RequestStart: RequestStart number number
  | is_ResponseHead: ResponseHead nat "string option" "entry option list" number
  | is_ResponseBodyPart: ResponseBodyPart bytes number
  | is_ResponseEnd: ResponseEnd number

subsection \<open>Readable\<close>

text \<open>
  The object-mode \<^verbatim>\<open>stream.Readable\<close> that \<open>sendRequest\<close> returns: the events pushed so
  far in order, whether end-of-stream was pushed, whether the stream was destroyed, and
  the error it was destroyed with.
\<close>

record Readable =
  pushed :: "ResponseStreamEvents list"
  ended :: bool
  destroyed :: bool
  errored :: "Error option"

definition new_Readable :: Readable where
  "new_Readable = \<lparr> pushed = [], ended = False, destroyed = False, errored = None \<rparr>"

text \<open>\<^verbatim>\<open>stream.destroy(error)\<close>: the first call wins, later calls do nothing.\<close>

definition destroy :: "Error \<Rightarrow> Readable \<Rightarrow> Readable" where
  "destroy e s = (if destroyed s then s else s\<lparr>destroyed := True, errored := Some e\<rparr>)"

text \<open>
  \<^verbatim>\<open>stream.push(event)\<close>: after end-of-stream the stream is destroyed with
  \<^verbatim>\<open>ERR_STREAM_PUSH_AFTER_EOF\<close>; on a destroyed stream the event is dropped; otherwise
  it is appended.
\<close>

definition push :: "ResponseStreamEvents \<Rightarrow> Readable \<Rightarrow> Readable" where
  "push ev s =
     (if ended s then destroy ERR_STREAM_PUSH_AFTER_EOF s
      else if destroyed s then s
      else s\<lparr>pushed := pushed s @ [ev]\<rparr>)"

text \<open>\<^verbatim>\<open>stream.push(null)\<close>: end-of-stream.\<close>

definition push_null :: "Readable \<Rightarrow> Readable" where
  "push_null s = s\<lparr>ended := True\<rparr>"

section \<open>Raw request transmitter\<close>

record RequestDefinition =
  method' :: string
  url :: string
  headers :: RawHeaders
  rawBody :: "bytes option"

record AbortSignal =
  signal_aborted :: bool

record RequestOptions =
  abortSignal :: "AbortSignal option"

text \<open>
  The promise of the source settles once: the first of the request's \<^verbatim>\<open>'error'\<close> and
  \<^verbatim>\<open>'response'\<close> events decides it, and later calls of \<^verbatim>\<open>resolve\<close> or \<^verbatim>\<open>reject\<close>
  do nothing.
\<close>

datatype PromiseState = Pending | Fulfilled | Rejected

text \<open>Everything one call of \<open>sendRequest\<close> owns.\<close>

record Exchange =
  client :: ClientRequest
  resultsStream :: Readable
  promise :: PromiseState
  options :: RequestOptions

text \<open>
  The synchronous part of \<open>sendRequest\<close>, statement by statement. A throw of
  \<^verbatim>\<open>new URL\<close>, of \<^verbatim>\<open>request\<close> or of \<^verbatim>\<open>_storeHeader\<close> leaves the function before anything
  else is done. \<^verbatim>\<open>requestDefn.rawBody?.byteLength\<close> is truthy exactly for a body that is
  present and not empty.
\<close>

definition sendRequest :: "Platform \<Rightarrow> RequestDefinition \<Rightarrow> RequestOptions \<Rightarrow> Error + Exchange" where
  "sendRequest p requestDefn opts =
     (case parseURL p (url requestDefn) of
        None \<Rightarrow> Inl ERR_INVALID_URL
      | Some u \<Rightarrow>
         (case request p (if protocol u = ''https'' then Https else Http)
                 (url requestDefn) (method' requestDefn) (abortSignal opts \<noteq> None) of
            Inl e \<Rightarrow> Inl e
          | Inr r0 \<Rightarrow>
             let r1 = removeHeader ''connection'' r0;
                 r2 = removeHeader ''transfer-encoding'' r1;
                 r3 = removeHeader ''content-length'' r2
             in case storeHeader
                       (request_method r3 @ '' '' @ request_path r3 @ '' HTTP/1.1'' @ [CHR 0x0D, CHR 0x0A])
                       (flattenPairedRawHeaders (js_array (headers requestDefn))) r3 of
                  Inl e \<Rightarrow> Inl e
                | Inr r4 \<Rightarrow>
                   let r5 = (case rawBody requestDefn of
                               None \<Rightarrow> end_request None r4
                             | Some b \<Rightarrow> if length b \<noteq> 0 then end_request (Some b) r4
                                         else end_request None r4);
                       s0 = new_Readable;
                       s1 = push (RequestStart (date_now p) (performance_now p)) s0
                   in Inr \<lparr> client = r5, resultsStream = s1, promise = Pending, options = opts \<rparr>))"

text \<open>
  The request definitions for which the call returns: neither \<^verbatim>\<open>new URL\<close> nor the
  \<^verbatim>\<open>request\<close> call of the selected transport throws, every header name is a token, no header
  value has an invalid character, and a \<^verbatim>\<open>Trailer\<close> header comes with a chunked
  \<^verbatim>\<open>Transfer-Encoding\<close>.
\<close>

definition acceptable_headers :: "string list \<Rightarrow> bool" where
  "acceptable_headers hs \<longleftrightarrow>
     validateHeaders hs = None \<and>
     (if has_header ''trailer'' hs
      then list_ex RE_TE_CHUNKED (header_values ''transfer-encoding'' hs) else True)"

text \<open>The caller's headers make the message chunked.\<close>

definition sends_chunked :: "RequestDefinition \<Rightarrow> bool" where
  "sends_chunked requestDefn =
     list_ex RE_TE_CHUNKED
       (header_values ''transfer-encoding''
          (flattenPairedRawHeaders (js_array (headers requestDefn))))"

definition creates_request :: "Platform \<Rightarrow> RequestDefinition \<Rightarrow> bool" where
  "creates_request p requestDefn =
     (case parseURL p (url requestDefn) of
        None \<Rightarrow> False
      | Some u \<Rightarrow>
          requestAccepted p (if protocol u = ''https'' then Https else Http)
            (url requestDefn) (method' requestDefn) \<and>
          acceptable_headers (flattenPairedRawHeaders (js_array (headers requestDefn))))"

subsection \<open>Callbacks\<close>

text \<open>
  The events the platform delivers to the callbacks the source registered: \<^verbatim>\<open>'error'\<close>
  and \<^verbatim>\<open>'response'\<close> of the request, \<^verbatim>\<open>'data'\<close>, \<^verbatim>\<open>'end'\<close> and \<^verbatim>\<open>'error'\<close> of the
  response, and \<^verbatim>\<open>'abort'\<close> of the abort signal.
\<close>

record IncomingMessage =
  statusCode :: nat
  statusMessage :: "string option"
  rawHeaders :: "string list"

datatype TransportEvent =
    is_RequestError: RequestError Error
  | is_RequestResponse: RequestResponse IncomingMessage
  | is_ResponseData: ResponseData bytes
  | is_ResponseFinished: ResponseFinished
  | is_ResponseError: ResponseError Error
  | is_SignalAbort: SignalAbort

text \<open>
  One callback run; \<open>now\<close> is the reading of \<^verbatim>\<open>performance.now()\<close> in it.
  \<^item> request \<^verbatim>\<open>'error'\<close>: \<^verbatim>\<open>reject\<close>, and on a pending promise the \<^verbatim>\<open>catch\<close>
    callback destroys the stream with the error and destroys the request.
  \<^item> request \<^verbatim>\<open>'response'\<close>: \<^verbatim>\<open>resolve\<close>, and on a pending promise the \<^verbatim>\<open>then\<close>
    callback pushes the response head and registers the three response callbacks.
  \<^item> the response callbacks exist only once the promise is fulfilled.
  \<^item> \<^verbatim>\<open>'abort'\<close>: the listener exists only when an abort signal was given; it calls
    \<^verbatim>\<open>request.abort()\<close>.
\<close>

fun on_event :: "number \<Rightarrow> TransportEvent \<Rightarrow> Exchange \<Rightarrow> Exchange" where
  "on_event now (RequestError e) x =
     (if promise x = Pending
      then x\<lparr> promise := Rejected,
               resultsStream := destroy e (resultsStream x),
               client := destroy_request (client x) \<rparr>
      else x)"
| "on_event now (RequestResponse response) x =
     (if promise x = Pending
      then x\<lparr> promise := Fulfilled,
               resultsStream :=
                 push (ResponseHead (statusCode response) (statusMessage response)
                         (pairFlatRawHeaders (rawHeaders response)) now)
                      (resultsStream x) \<rparr>
      else x)"
| "on_event now (ResponseData data) x =
     (if promise x = Fulfilled
      then x\<lparr> resultsStream := push (ResponseBodyPart data now) (resultsStream x) \<rparr>
      else x)"
| "on_event now ResponseFinished x =
     (if promise x = Fulfilled
      then x\<lparr> resultsStream := push_null (push (ResponseEnd now) (resultsStream x)) \<rparr>
      else x)"
| "on_event now (ResponseError e) x =
     (if promise x = Fulfilled
      then x\<lparr> resultsStream := destroy e (resultsStream x) \<rparr>
      else x)"
| "on_event now SignalAbort x =
     (if abortSignal (options x) \<noteq> None
      then x\<lparr> client := abort_request (client x) \<rparr>
      else x)"

text \<open>The callbacks run one after the other, in the order the platform delivers the events.\<close>

fun run :: "(number \<times> TransportEvent) list \<Rightarrow> Exchange \<Rightarrow> Exchange" where
  "run [] x = x"
| "run (ev # evs) x = run evs (on_event (fst ev) (snd ev) x)"



section \<open>Specification vocabulary\<close>

subsection \<open>A recursive description of the pairing loop\<close>

text \<open>
  Pairs of neighbours, read off the list structure; a last element without a neighbour is
  paired with \<^verbatim>\<open>undefined\<close>. The loop is proved equal to it below.
\<close>

fun pair_up :: "string list \<Rightarrow> entry list" where
  "pair_up [] = []"
| "pair_up [k] = [(Some k, None)]"
| "pair_up (k # v # rest) = (Some k, Some v) # pair_up rest"

subsection \<open>Lifecycle order of the pushed events\<close>

text \<open>The first event is a \<open>RequestStart\<close>, and no later event is one.\<close>

definition starts_with_one_RequestStart :: "ResponseStreamEvents list \<Rightarrow> bool" where
  "starts_with_one_RequestStart es =
     (case es of [] \<Rightarrow> False
      | e # rest \<Rightarrow> is_RequestStart e \<and> \<not> list_ex is_RequestStart rest)"

definition at_most_one_ResponseHead :: "ResponseStreamEvents list \<Rightarrow> bool" where
  "at_most_one_ResponseHead es = (length (filter is_ResponseHead es) \<le> 1)"

text \<open>From the first \<open>ResponseBodyPart\<close> on, there is no \<open>ResponseHead\<close>.\<close>

definition head_precedes_body :: "ResponseStreamEvents list \<Rightarrow> bool" where
  "head_precedes_body es =
     (\<not> list_ex is_ResponseHead (dropWhile (\<lambda>e. \<not> is_ResponseBodyPart e) es))"

text \<open>No event but the last is a \<open>ResponseEnd\<close>.\<close>

definition ResponseEnd_is_last :: "ResponseStreamEvents list \<Rightarrow> bool" where
  "ResponseEnd_is_last es = (\<not> list_ex is_ResponseEnd (butlast es))"

subsection \<open>Transport behaviour the callbacks rely on\<close>

text \<open>The events of the response object.\<close>

definition response_event :: "TransportEvent \<Rightarrow> bool" where
  "response_event ev = (is_ResponseData ev \<or> is_ResponseFinished ev \<or> is_ResponseError ev)"

text \<open>
  A response that emitted \<^verbatim>\<open>'end'\<close> emits nothing more: no \<^verbatim>\<open>'data'\<close>, no second
  \<^verbatim>\<open>'end'\<close> and no \<^verbatim>\<open>'error'\<close>.
\<close>

fun silent_after_end :: "(number \<times> TransportEvent) list \<Rightarrow> bool" where
  "silent_after_end [] = True"
| "silent_after_end (ev # evs) =
     (if is_ResponseFinished (snd ev)
      then list_all (\<lambda>e. \<not> response_event (snd e)) evs
      else silent_after_end evs)"


subsection \<open>A concrete platform\<close>

text \<open>
  A platform that knows two URLs, parsed as the WHATWG parser parses them, whose transports
  accept every request and whose agent keeps connections alive.
\<close>

definition example_platform :: Platform where
  "example_platform =
     \<lparr> parseURL = (\<lambda>s.
         if s = ''http://example.com/''
         then Some \<lparr> scheme = ''http'', host = ''example.com'', pathname = ''/'', search = [] \<rparr>
         else if s = ''https://example.com/''
         then Some \<lparr> scheme = ''https'', host = ''example.com'', pathname = ''/'', search = [] \<rparr>
         else None),
       requestAccepted = (\<lambda>t s m. True),
       agentKeepAlive = True,
       date_now = 1700000000000,
       performance_now = 1000 \<rparr>"

definition example_request :: RequestDefinition where
  "example_request =
     \<lparr> method' = ''GET'', url = ''http://example.com/'',
       headers = [(''X-A'', ''1''), (''X-A'', ''2'')], rawBody = None \<rparr>"

definition chunked_request :: RequestDefinition where
  "chunked_request =
     \<lparr> method' = ''GET'', url = ''http://example.com/'',
       headers = [(''Transfer-Encoding'', ''chunked'')], rawBody = None \<rparr>"


subsection \<open>Invariants of an exchange\<close>

text \<open>
  The shape of the pushed events, by the state of the promise: only the start event until
  the promise is fulfilled; then the head, body parts, and a \<open>ResponseEnd\<close> last or not at
  all.
\<close>

fun parts_then_end :: "ResponseStreamEvents list \<Rightarrow> bool" where
  "parts_then_end [] = True"
| "parts_then_end [ResponseEnd t] = True"
| "parts_then_end (ResponseBodyPart b t # es) = parts_then_end es"
| "parts_then_end (e # es) = False"

definition shape_inv :: "Exchange \<Rightarrow> bool" where
  "shape_inv x =
     (case pushed (resultsStream x) of
        [] \<Rightarrow> False
      | e # es \<Rightarrow> is_RequestStart e \<and>
          (if promise x = Fulfilled
           then (case es of [] \<Rightarrow> False | h # ps \<Rightarrow> is_ResponseHead h \<and> parts_then_end ps)
           else es = []))"

text \<open>
  How the flags of the stream hang together: an error is recorded exactly on a destroyed
  stream; a stream that is ended and not destroyed pushed \<open>ResponseEnd\<close>, and one that pushed
  \<open>ResponseEnd\<close> is ended; the stream of a pending promise is untouched, that of a rejected
  promise destroyed, together with the request.
\<close>

definition flags_inv :: "Exchange \<Rightarrow> bool" where
  "flags_inv x =
     (let s = resultsStream x in
      (destroyed s \<longleftrightarrow> errored s \<noteq> None) \<and>
      (list_ex is_ResponseEnd (pushed s) \<longrightarrow> ended s) \<and>
      (ended s \<longrightarrow> promise x = Fulfilled) \<and>
      (ended s \<and> \<not> destroyed s \<longrightarrow> list_ex is_ResponseEnd (pushed s)) \<and>
      (promise x = Pending \<longrightarrow> \<not> destroyed s) \<and>
      (promise x = Rejected \<longrightarrow> destroyed s \<and> request_destroyed (client x)))"


section \<open>Properties of the header codec\<close>

lemma js_store_at_length: "js_store xs (length xs) v = xs @ [Some v]"
  by (simp add: js_store_def)

lemma pair_up_drop:
  assumes "i < length xs"
  shows "pair_up (drop i xs) = (js_index xs i, js_index xs (i + 1)) # pair_up (drop (i + 2) xs)"
proof (cases "i + 1 < length xs")
  case True
  have "drop i xs = xs ! i # drop (Suc i) xs"
    using assms by (simp add: Cons_nth_drop_Suc)
  moreover have "drop (Suc i) xs = xs ! (Suc i) # drop (Suc (Suc i)) xs"
    using True by (simp add: Cons_nth_drop_Suc)
  ultimately show ?thesis
    using assms True by (simp add: js_index_def)
next
  case False
  have "drop i xs = xs ! i # drop (Suc i) xs"
    using assms by (simp add: Cons_nth_drop_Suc)
  moreover have "drop (Suc i) xs = []"
    using False by simp
  ultimately show ?thesis
    using assms False by (simp add: js_index_def)
qed

lemma pairLoop_pair_up:
  "i = 2 * length result \<Longrightarrow>
   pairLoop flat i result = result @ js_array (pair_up (drop i flat))"
proof (induction flat i result rule: pairLoop.induct)
  case (1 flat i result)
  show ?case
  proof (cases "i < length flat")
    case True
    let ?e = "(js_index flat i, js_index flat (i + 1))"
    have half: "i div 2 = length result"
      using "1.prems" by simp
    have stored: "js_store result (i div 2) ?e = result @ [Some ?e]"
      by (simp add: half js_store_at_length)
    have "pairLoop flat (i + 2) (result @ [Some ?e]) =
          (result @ [Some ?e]) @ js_array (pair_up (drop (i + 2) flat))"
      using "1.IH" [OF True] "1.prems" stored by simp
    then show ?thesis
      using True stored pair_up_drop [OF True]
      by (subst pairLoop.simps) (simp add: js_array_def)
  next
    case False
    then show ?thesis
      by (subst pairLoop.simps) (simp add: js_array_def)
  qed
qed

lemma pairFlatRawHeaders_pair_up:
  "pairFlatRawHeaders flat = js_array (pair_up flat)"
  by (simp add: pairFlatRawHeaders_def pairLoop_pair_up)

lemma flatten_js_array_Cons:
  "flattenPairedRawHeaders (js_array (t # ts)) =
   fst t # snd t # flattenPairedRawHeaders (js_array ts)"
  by (simp add: flattenPairedRawHeaders_def js_flat_def js_array_def tuple_array_def)

lemma flatten_js_array_Nil: "flattenPairedRawHeaders (js_array []) = []"
  by (simp add: flattenPairedRawHeaders_def js_flat_def js_array_def)

lemma pair_up_flatten:
  "pair_up (flattenPairedRawHeaders (js_array h)) = map defined_entry h"
  by (induction h) (simp_all add: flatten_js_array_Cons flatten_js_array_Nil defined_entry_def)

lemma flatten_pair_up:
  "even (length flat) \<Longrightarrow>
   flattenPairedRawHeaders (js_array (pair_up flat)) = js_array flat"
proof (induction flat rule: pair_up.induct)
  case 1
  show ?case by (simp add: flatten_js_array_Nil) (simp add: js_array_def)
next
  case (2 k)
  then show ?case by simp
next
  case (3 k v rest)
  then show ?case
    by (simp add: flatten_js_array_Cons) (simp add: js_array_def)
qed

lemma length_pair_up: "length (pair_up flat) = (length flat + 1) div 2"
  by (induction flat rule: pair_up.induct) simp_all

lemma pair_up_nth:
  "2 * i + 1 < length flat \<Longrightarrow>
   pair_up flat ! i = (Some (flat ! (2 * i)), Some (flat ! (2 * i + 1)))"
proof (induction flat arbitrary: i rule: pair_up.induct)
  case 1
  then show ?case by simp
next
  case (2 k)
  then show ?case by simp
next
  case (3 k v rest)
  then show ?case by (cases i) simp_all
qed

lemma pair_up_last_odd:
  "odd (length flat) \<Longrightarrow>
   pair_up flat \<noteq> [] \<and> last (pair_up flat) = (Some (last flat), None)"
proof (induction flat rule: pair_up.induct)
  case 1
  then show ?case by simp
next
  case (2 k)
  show ?case by simp
next
  case (3 k v rest)
  then have "rest \<noteq> []" by auto
  with 3 show ?case by simp
qed

lemma flatten_length:
  "length (flattenPairedRawHeaders (js_array h)) = 2 * length h"
  by (induction h) (simp_all add: flatten_js_array_Cons flatten_js_array_Nil)

lemma flatten_nth:
  "i < length h \<Longrightarrow>
   flattenPairedRawHeaders (js_array h) ! (2 * i) = fst (h ! i) \<and>
   flattenPairedRawHeaders (js_array h) ! (2 * i + 1) = snd (h ! i)"
proof (induction h arbitrary: i)
  case Nil
  then show ?case by simp
next
  case (Cons t ts)
  then show ?case by (cases i) (simp_all add: flatten_js_array_Cons)
qed


subsection \<open>Claims about the codec\<close>

text \<open>
  Claim C2. For every \<^verbatim>\<open>RawHeaders\<close> list \<open>h\<close>, duplicate keys and empty strings
  included, pairing the flattened list gives \<open>h\<close> back: the array of the same entries in the
  same order, each with both components present.
\<close>

theorem pair_flatten_roundtrip:
  "pairFlatRawHeaders (flattenPairedRawHeaders (js_array h)) = js_array (map defined_entry h)"
  by (simp add: pairFlatRawHeaders_pair_up pair_up_flatten)

text \<open>
  Claim C5. On a flat list of odd length, \<open>pairFlatRawHeaders\<close> does not fail and does not
  check the length: it returns an array without holes, one entry per started pair, whose
  last entry has the last input string as key and \<^verbatim>\<open>undefined\<close> as value, which is none of
  the input strings.
\<close>

theorem pair_odd_trailing_entry:
  assumes "odd (length flat)"
  shows "\<exists>entries. pairFlatRawHeaders flat = js_array entries \<and>
           length entries = (length flat + 1) div 2 \<and>
           entries \<noteq> [] \<and>
           last entries = (Some (last flat), None) \<and>
           snd (last entries) \<notin> Some ` set flat"
proof (intro exI conjI)
  show "pairFlatRawHeaders flat = js_array (pair_up flat)"
    by (rule pairFlatRawHeaders_pair_up)
  show "length (pair_up flat) = (length flat + 1) div 2"
    by (rule length_pair_up)
  show "pair_up flat \<noteq> []"
    using pair_up_last_odd [OF assms] by simp
  show "last (pair_up flat) = (Some (last flat), None)"
    using pair_up_last_odd [OF assms] by simp
  show "snd (last (pair_up flat)) \<notin> Some ` set flat"
    using pair_up_last_odd [OF assms] by auto
qed

theorem pair_odd_trailing_entry_witness:
  "odd (length [''Host'', ''example.com'', ''Accept'']) \<and>
   pairFlatRawHeaders [''Host'', ''example.com'', ''Accept''] =
     [Some (Some ''Host'', Some ''example.com''), Some (Some ''Accept'', None)]"
proof -
  have odd3: "odd (length [''Host'', ''example.com'', ''Accept''])"
    by simp
  obtain entries where
    e: "pairFlatRawHeaders [''Host'', ''example.com'', ''Accept''] = js_array entries"
    using pair_odd_trailing_entry [OF odd3] by blast
  have "pairFlatRawHeaders [''Host'', ''example.com'', ''Accept''] =
        [Some (Some ''Host'', Some ''example.com''), Some (Some ''Accept'', None)]"
    by (simp add: pairFlatRawHeaders_def pairLoop.simps js_store_def js_index_def)
  with odd3 show ?thesis by simp
qed

text \<open>
  Claim C6. On a flat list of even length \<open>2n\<close>, \<open>pairFlatRawHeaders\<close> returns an array of
  exactly \<open>n\<close> entries without holes, the \<open>i\<close>-th being the pair of the input strings at
  \<open>2i\<close> and \<open>2i + 1\<close>; and \<open>flattenPairedRawHeaders\<close> returns a list of twice the length of
  its argument, holding at \<open>2i\<close> and \<open>2i + 1\<close> the key and the value of the \<open>i\<close>-th pair.
\<close>

theorem pair_and_flatten_positions:
  "(length flat = 2 * n \<longrightarrow>
      length (pairFlatRawHeaders flat) = n \<and>
      (\<forall>i < n. pairFlatRawHeaders flat ! i =
                 Some (Some (flat ! (2 * i)), Some (flat ! (2 * i + 1))))) \<and>
   length (flattenPairedRawHeaders (js_array h)) = 2 * length h \<and>
   (\<forall>i < length h.
      flattenPairedRawHeaders (js_array h) ! (2 * i) = fst (h ! i) \<and>
      flattenPairedRawHeaders (js_array h) ! (2 * i + 1) = snd (h ! i))"
proof -
  have pairs: "length (pairFlatRawHeaders flat) = n \<and>
      (\<forall>i < n. pairFlatRawHeaders flat ! i =
                 Some (Some (flat ! (2 * i)), Some (flat ! (2 * i + 1))))"
    if len: "length flat = 2 * n"
  proof (intro conjI allI impI)
    show "length (pairFlatRawHeaders flat) = n"
      using len by (simp add: pairFlatRawHeaders_pair_up js_array_def length_pair_up)
  next
    fix i
    assume "i < n"
    then have "2 * i + 1 < length flat" and "i < length (pair_up flat)"
      using len by (simp_all add: length_pair_up)
    then show "pairFlatRawHeaders flat ! i =
        Some (Some (flat ! (2 * i)), Some (flat ! (2 * i + 1)))"
      by (simp add: pairFlatRawHeaders_pair_up js_array_def pair_up_nth)
  qed
  have flat_len: "length (flattenPairedRawHeaders (js_array h)) = 2 * length h"
    by (rule flatten_length)
  have flat_nth: "\<forall>i < length h.
      flattenPairedRawHeaders (js_array h) ! (2 * i) = fst (h ! i) \<and>
      flattenPairedRawHeaders (js_array h) ! (2 * i + 1) = snd (h ! i)"
    using flatten_nth by blast
  show ?thesis
    using pairs flat_len flat_nth by blast
qed

theorem pair_and_flatten_positions_witness:
  "length [''a'', ''1'', ''a'', []] = 2 * 2 \<and>
   pairFlatRawHeaders [''a'', ''1'', ''a'', []] ! 1 = Some (Some ''a'', Some []) \<and>
   flattenPairedRawHeaders (js_array [(''a'', ''1''), (''a'', [])]) ! 3 = []"
proof -
  let ?flat = "[''a'', ''1'', ''a'', []]"
  let ?h = "[(''a'', ''1''), (''a'', [])]"
  note inst = pair_and_flatten_positions [of ?flat 2 ?h]
  have len: "length ?flat = 2 * 2"
    by simp
  have one: "(1::nat) < 2" and one': "(1::nat) < length ?h"
    by simp_all
  from inst len have "\<forall>i < 2. pairFlatRawHeaders ?flat ! i =
      Some (Some (?flat ! (2 * i)), Some (?flat ! (2 * i + 1)))"
    by blast
  with one have "pairFlatRawHeaders ?flat ! 1 =
      Some (Some (?flat ! (2 * 1)), Some (?flat ! (2 * 1 + 1)))"
    by blast
  then have a: "pairFlatRawHeaders ?flat ! 1 = Some (Some ''a'', Some [])"
    by simp
  from inst have "\<forall>i < length ?h.
      flattenPairedRawHeaders (js_array ?h) ! (2 * i) = fst (?h ! i) \<and>
      flattenPairedRawHeaders (js_array ?h) ! (2 * i + 1) = snd (?h ! i)"
    by blast
  with one' have "flattenPairedRawHeaders (js_array ?h) ! (2 * 1 + 1) = snd (?h ! 1)"
    by blast
  then have b: "flattenPairedRawHeaders (js_array ?h) ! 3 = []"
    by simp
  from len a b show ?thesis by blast
qed

text \<open>
  Claim C10. For every flat list of even length, flattening the paired list gives the flat
  list back, every string present.
\<close>

theorem flatten_pair_roundtrip:
  "even (length flat) \<Longrightarrow>
   flattenPairedRawHeaders (pairFlatRawHeaders flat) = js_array flat"
  by (simp add: pairFlatRawHeaders_pair_up flatten_pair_up)

theorem flatten_pair_roundtrip_witness:
  "even (length [''a'', ''1'', ''a'', []]) \<and>
   flattenPairedRawHeaders (pairFlatRawHeaders [''a'', ''1'', ''a'', []]) =
     [Some ''a'', Some ''1'', Some ''a'', Some []]"
proof -
  have ev: "even (length [''a'', ''1'', ''a'', []])"
    by simp
  show ?thesis
    using ev flatten_pair_roundtrip [OF ev] by (simp add: js_array_def)
qed

section \<open>Properties of the transmitter\<close>

subsection \<open>The synchronous part\<close>

lemma protocol_not_https: "protocol u \<noteq> ''https''"
proof
  assume "protocol u = ''https''"
  then have "last (protocol u) = last ''https''" by simp
  then show False by (simp add: protocol_def)
qed

lemma removed_all:
  "removedConnection (removeHeader ''content-length'' (removeHeader ''transfer-encoding''
     (removeHeader ''connection'' r)))"
  "removedTE (removeHeader ''content-length'' (removeHeader ''transfer-encoding''
     (removeHeader ''connection'' r)))"
  "removedContLen (removeHeader ''content-length'' (removeHeader ''transfer-encoding''
     (removeHeader ''connection'' r)))"
  by (simp_all add: removeHeader_def Let_def ascii_lower_def)

lemma removeHeader_keeps:
  "transport (removeHeader n r) = transport r"
  "body (removeHeader n r) = body r"
  "aborted (removeHeader n r) = aborted r"
  "finished (removeHeader n r) = finished r"
  by (simp_all add: removeHeader_def Let_def)

lemma storeHeader_removed:
  assumes "removedConnection r" and "removedTE r"
  shows "storeHeader line hs r =
     (if odd (length hs) then Inl ERR_INVALID_ARG_VALUE
      else case validateHeaders hs of
        Some e \<Rightarrow> Inl e
      | None \<Rightarrow>
          if \<not> list_ex RE_TE_CHUNKED (header_values ''transfer-encoding'' hs) \<and>
             has_header ''trailer'' hs
          then Inl ERR_HTTP_TRAILER_INVALID
          else Inr (r\<lparr> header := Some (line, hs),
                       chunkedEncoding :=
                         list_ex RE_TE_CHUNKED (header_values ''transfer-encoding'' hs) \<rparr>))"
  using assms by (simp add: storeHeader_def Let_def split: option.splits)

lemma storeHeader_acceptable:
  assumes "removedConnection r" and "removedTE r" and "even (length hs)"
  shows "acceptable_headers hs \<Longrightarrow>
           storeHeader line hs r =
             Inr (r\<lparr> header := Some (line, hs),
                     chunkedEncoding :=
                       list_ex RE_TE_CHUNKED (header_values ''transfer-encoding'' hs) \<rparr>)"
    and "storeHeader line hs r = Inr r' \<Longrightarrow> acceptable_headers hs"
  using assms
  by (auto simp: storeHeader_removed acceptable_headers_def split: option.splits if_splits)


lemma request_cases:
  assumes "request p t s m sig = Inr r"
  shows "transport r = t" and "body r = []" and "\<not> aborted r" and "\<not> finished r"
    and "parseURL p s \<noteq> None" and "requestAccepted p t s m"
  using assms
  by (auto simp: request_def Let_def split: option.splits if_splits)

lemma request_returns:
  "parseURL p s = Some u \<Longrightarrow> requestAccepted p t s m \<Longrightarrow> \<exists>r. request p t s m sig = Inr r"
  by (simp add: request_def Let_def)

lemma end_request_fields:
  "finished (end_request chunk r)"
  "transport (end_request chunk r) = transport r"
  "aborted (end_request chunk r) = aborted r"
  "header (end_request chunk r) = header r"
  "chunkedEncoding (end_request chunk r) = chunkedEncoding r"
  by (simp_all add: end_request_def Let_def)

text \<open>The synchronous part, step by step, for a call that returns.\<close>

lemma sendRequest_InrE:
  assumes "sendRequest p d opts = Inr st"
  obtains u r0 r4 where
    "parseURL p (url d) = Some u"
    "request p Http (url d) (method' d) (abortSignal opts \<noteq> None) = Inr r0"
    "storeHeader
       (request_method r0 @ '' '' @ request_path r0 @ '' HTTP/1.1'' @ [CHR 0x0D, CHR 0x0A])
       (flattenPairedRawHeaders (js_array (headers d)))
       (removeHeader ''content-length'' (removeHeader ''transfer-encoding''
          (removeHeader ''connection'' r0))) = Inr r4"
    "st = \<lparr> client = end_request
                       (case rawBody d of None \<Rightarrow> None
                        | Some b \<Rightarrow> if length b \<noteq> 0 then Some b else None) r4,
               resultsStream = push (RequestStart (date_now p) (performance_now p)) new_Readable,
               promise = Pending, options = opts \<rparr>"
proof -
  from assms obtain u where u: "parseURL p (url d) = Some u"
    by (auto simp: sendRequest_def split: option.splits)
  from assms u obtain r0 where
    r0: "request p Http (url d) (method' d) (abortSignal opts \<noteq> None) = Inr r0"
    by (auto simp: sendRequest_def protocol_not_https split: sum.splits)
  have keep: "request_method (removeHeader a (removeHeader b (removeHeader c r0))) = request_method r0"
    "request_path (removeHeader a (removeHeader b (removeHeader c r0))) = request_path r0" for a b c
    by (simp_all add: removeHeader_def Let_def)
  from assms u r0 obtain r4 where
    r4: "storeHeader
       (request_method r0 @ '' '' @ request_path r0 @ '' HTTP/1.1'' @ [CHR 0x0D, CHR 0x0A])
       (flattenPairedRawHeaders (js_array (headers d)))
       (removeHeader ''content-length'' (removeHeader ''transfer-encoding''
          (removeHeader ''connection'' r0))) = Inr r4"
    by (auto simp: sendRequest_def protocol_not_https Let_def keep split: sum.splits)
  from assms u r0 r4 have
    "st = \<lparr> client = end_request
                       (case rawBody d of None \<Rightarrow> None
                        | Some b \<Rightarrow> if length b \<noteq> 0 then Some b else None) r4,
               resultsStream = push (RequestStart (date_now p) (performance_now p)) new_Readable,
               promise = Pending, options = opts \<rparr>"
    by (auto simp: sendRequest_def protocol_not_https Let_def keep split: option.splits)
  with u r0 r4 show thesis
    by (rule that)
qed

lemma flatten_even: "even (length (flattenPairedRawHeaders (js_array h)))"
  by (simp add: flatten_length)

lemma sendRequest_returns:
  assumes "creates_request p d"
  shows "\<exists>st. sendRequest p d opts = Inr st"
proof -
  from assms obtain u where u: "parseURL p (url d) = Some u"
    and acc: "requestAccepted p Http (url d) (method' d)"
    and hs: "acceptable_headers (flattenPairedRawHeaders (js_array (headers d)))"
    by (auto simp: creates_request_def protocol_not_https split: option.splits)
  obtain r0 where r0: "request p Http (url d) (method' d) (abortSignal opts \<noteq> None) = Inr r0"
    using request_returns [OF u acc] by blast
  let ?r3 = "removeHeader ''content-length'' (removeHeader ''transfer-encoding''
          (removeHeader ''connection'' r0))"
  let ?line = "request_method ?r3 @ '' '' @ request_path ?r3 @ '' HTTP/1.1'' @ [CHR 0x0D, CHR 0x0A]"
  obtain r4 where
    r4: "storeHeader ?line (flattenPairedRawHeaders (js_array (headers d))) ?r3 = Inr r4"
    using storeHeader_acceptable(1) [OF removed_all(1) removed_all(2) flatten_even hs] by blast
  show ?thesis
    using u r0 r4 by (simp add: sendRequest_def Let_def protocol_not_https)
qed

lemma sendRequest_creates:
  assumes "sendRequest p d opts = Inr st"
  shows "creates_request p d"
proof -
  from assms obtain u r0 r4 where
    u: "parseURL p (url d) = Some u"
    and r0: "request p Http (url d) (method' d) (abortSignal opts \<noteq> None) = Inr r0"
    and r4: "storeHeader
       (request_method r0 @ '' '' @ request_path r0 @ '' HTTP/1.1'' @ [CHR 0x0D, CHR 0x0A])
       (flattenPairedRawHeaders (js_array (headers d)))
       (removeHeader ''content-length'' (removeHeader ''transfer-encoding''
          (removeHeader ''connection'' r0))) = Inr r4"
    by (rule sendRequest_InrE)
  have "acceptable_headers (flattenPairedRawHeaders (js_array (headers d)))"
    using storeHeader_acceptable(2) [OF removed_all(1) removed_all(2) flatten_even r4] .
  moreover have "requestAccepted p Http (url d) (method' d)"
    using r0 by (rule request_cases(6))
  ultimately show ?thesis
    using u by (simp add: creates_request_def protocol_not_https)
qed

lemma sendRequest_stream:
  assumes "sendRequest p d opts = Inr st"
  shows "resultsStream st =
           \<lparr> pushed = [RequestStart (date_now p) (performance_now p)],
             ended = False, destroyed = False, errored = None \<rparr>"
    and "promise st = Pending"
    and "options st = opts"
proof -
  from assms obtain r where
    "st = \<lparr> client = r,
             resultsStream = push (RequestStart (date_now p) (performance_now p)) new_Readable,
             promise = Pending, options = opts \<rparr>"
    by (rule sendRequest_InrE) blast
  then show "resultsStream st =
           \<lparr> pushed = [RequestStart (date_now p) (performance_now p)],
             ended = False, destroyed = False, errored = None \<rparr>"
    and "promise st = Pending"
    and "options st = opts"
    by (simp_all add: push_def new_Readable_def)
qed

lemma sendRequest_client:
  assumes "sendRequest p d opts = Inr st"
  shows "transport (client st) = Http"
    and "wire_headers (client st) = Some (flattenPairedRawHeaders (js_array (headers d)))"
    and "finished (client st)"
    and "\<not> aborted (client st)"
    and "chunkedEncoding (client st) = sends_chunked d"
    and "body (client st) =
           (case rawBody d of
              None \<Rightarrow> []
            | Some b \<Rightarrow> if sends_chunked d \<and> b \<noteq> [] then toString16 (length b) @ crlf @ b @ crlf
                        else b) @
           (if sends_chunked d then [48] @ crlf @ crlf else [])"
proof -
  from assms obtain u r0 r4 where
    r0: "request p Http (url d) (method' d) (abortSignal opts \<noteq> None) = Inr r0"
    and r4: "storeHeader
       (request_method r0 @ '' '' @ request_path r0 @ '' HTTP/1.1'' @ [CHR 0x0D, CHR 0x0A])
       (flattenPairedRawHeaders (js_array (headers d)))
       (removeHeader ''content-length'' (removeHeader ''transfer-encoding''
          (removeHeader ''connection'' r0))) = Inr r4"
    and st: "client st = end_request
                       (case rawBody d of None \<Rightarrow> None
                        | Some b \<Rightarrow> if length b \<noteq> 0 then Some b else None) r4"
    by (rule sendRequest_InrE) simp
  let ?hs = "flattenPairedRawHeaders (js_array (headers d))"
  let ?r3 = "removeHeader ''content-length'' (removeHeader ''transfer-encoding''
          (removeHeader ''connection'' r0))"
  have acc: "acceptable_headers ?hs"
    using storeHeader_acceptable(2) [OF removed_all(1) removed_all(2) flatten_even r4] .
  have "r4 = ?r3\<lparr> header := Some
            (request_method r0 @ '' '' @ request_path r0 @ '' HTTP/1.1'' @ [CHR 0x0D, CHR 0x0A], ?hs),
          chunkedEncoding := list_ex RE_TE_CHUNKED (header_values ''transfer-encoding'' ?hs) \<rparr>"
    using storeHeader_acceptable(1) [OF removed_all(1) removed_all(2) flatten_even acc] r4
    by simp
  then have r4f: "header r4 = Some
            (request_method r0 @ '' '' @ request_path r0 @ '' HTTP/1.1'' @ [CHR 0x0D, CHR 0x0A], ?hs)"
    "chunkedEncoding r4 = sends_chunked d"
    "transport r4 = transport r0" "body r4 = body r0" "aborted r4 = aborted r0"
    by (simp_all add: sends_chunked_def removeHeader_keeps)
  show "transport (client st) = Http"
    using st r4f(3) request_cases(1) [OF r0] by (simp add: end_request_fields)
  show "wire_headers (client st) = Some ?hs"
    using st r4f(1) by (simp add: wire_headers_def end_request_fields)
  show "finished (client st)"
    using st by (simp add: end_request_fields)
  show "\<not> aborted (client st)"
    using st r4f(5) request_cases(3) [OF r0] by (simp add: end_request_fields)
  show "chunkedEncoding (client st) = sends_chunked d"
    using st r4f(2) by (simp add: end_request_fields)
  show "body (client st) =
           (case rawBody d of
              None \<Rightarrow> []
            | Some b \<Rightarrow> if sends_chunked d \<and> b \<noteq> [] then toString16 (length b) @ crlf @ b @ crlf
                        else b) @
           (if sends_chunked d then [48] @ crlf @ crlf else [])"
    using st r4f(2,4) request_cases(2) [OF r0]
    by (cases "rawBody d") (auto simp: end_request_def Let_def)
qed

lemma shape_inv_initial: "sendRequest p d opts = Inr st \<Longrightarrow> shape_inv st"
  by (simp add: shape_inv_def sendRequest_stream)

lemma flags_inv_initial: "sendRequest p d opts = Inr st \<Longrightarrow> flags_inv st"
  by (simp add: flags_inv_def sendRequest_stream)

lemma parts_then_end_snoc_part:
  "parts_then_end ps \<Longrightarrow> \<not> list_ex is_ResponseEnd ps \<Longrightarrow>
   parts_then_end (ps @ [ResponseBodyPart b t])"
  by (induction ps rule: parts_then_end.induct) simp_all

lemma parts_then_end_snoc_end:
  "parts_then_end ps \<Longrightarrow> \<not> list_ex is_ResponseEnd ps \<Longrightarrow>
   parts_then_end (ps @ [ResponseEnd t])"
  by (induction ps rule: parts_then_end.induct) simp_all

lemma flags_inv_step: "flags_inv x \<Longrightarrow> flags_inv (on_event now ev x)"
  by (cases ev)
     (auto simp: flags_inv_def Let_def push_def push_null_def destroy_def
        destroy_request_def abort_request_def)

lemma pushed_destroy: "pushed (destroy e s) = pushed s"
  by (simp add: destroy_def)

lemma pushed_push:
  "pushed (push ev s) = (if ended s \<or> destroyed s then pushed s else pushed s @ [ev])"
  by (simp add: push_def destroy_def)

lemma pushed_push_null: "pushed (push_null s) = pushed s"
  by (simp add: push_null_def)

lemma shape_inv_iff:
  "shape_inv x \<longleftrightarrow>
     (\<exists>e es. pushed (resultsStream x) = e # es \<and> is_RequestStart e \<and>
        (if promise x = Fulfilled
         then \<exists>h ps. es = h # ps \<and> is_ResponseHead h \<and> parts_then_end ps
         else es = []))"
  by (cases "pushed (resultsStream x)"; cases "tl (pushed (resultsStream x))")
     (simp_all add: shape_inv_def)

lemma shape_inv_same:
  "shape_inv x \<Longrightarrow> pushed (resultsStream y) = pushed (resultsStream x) \<Longrightarrow>
   (promise y = Fulfilled) = (promise x = Fulfilled) \<Longrightarrow> shape_inv y"
  by (simp add: shape_inv_iff)

lemma shape_inv_step:
  assumes "shape_inv x" and "flags_inv x"
  shows "shape_inv (on_event now ev x)"
proof (cases ev)
  case (RequestError e)
  show ?thesis
  proof (cases "promise x = Pending")
    case True
    with assms(1) have "pushed (resultsStream x) \<noteq> [] \<and> tl (pushed (resultsStream x)) = [] \<and>
        is_RequestStart (hd (pushed (resultsStream x)))"
      by (auto simp: shape_inv_iff)
    then show ?thesis
      using True by (auto simp: RequestError shape_inv_iff pushed_destroy neq_Nil_conv)
  next
    case False
    with assms(1) show ?thesis by (simp add: RequestError)
  qed
next
  case (RequestResponse r)
  show ?thesis
  proof (cases "promise x = Pending")
    case True
    then have open_: "\<not> ended (resultsStream x)" "\<not> destroyed (resultsStream x)"
      using assms(2) by (auto simp: flags_inv_def Let_def)
    from True assms(1) obtain e where "pushed (resultsStream x) = [e]" "is_RequestStart e"
      by (auto simp: shape_inv_iff)
    then show ?thesis
      using True open_ by (simp add: RequestResponse shape_inv_iff pushed_push)
  next
    case False
    with assms(1) show ?thesis by (simp add: RequestResponse)
  qed
next
  case (ResponseData b)
  show ?thesis
  proof (cases "promise x = Fulfilled")
    case True
    from True assms(1) obtain e h ps where
      shape: "pushed (resultsStream x) = e # h # ps" "is_RequestStart e" "is_ResponseHead h"
        "parts_then_end ps"
      by (auto simp: shape_inv_iff)
    show ?thesis
    proof (cases "ended (resultsStream x) \<or> destroyed (resultsStream x)")
      case closed: True
      then have "pushed (resultsStream (on_event now ev x)) = pushed (resultsStream x)"
        using True by (simp add: ResponseData pushed_push)
      moreover have "promise (on_event now ev x) = promise x"
        using True by (simp add: ResponseData)
      ultimately show ?thesis
        using assms(1) shape_inv_same by simp
    next
      case False
      then have "\<not> list_ex is_ResponseEnd (pushed (resultsStream x))"
        using assms(2) by (auto simp: flags_inv_def Let_def)
      then have "\<not> list_ex is_ResponseEnd ps"
        using shape(1) by simp
      then have "parts_then_end (ps @ [ResponseBodyPart b now])"
        using shape(4) parts_then_end_snoc_part by blast
      then show ?thesis
        using True False shape by (simp add: ResponseData shape_inv_iff pushed_push)
    qed
  next
    case False
    with assms(1) show ?thesis by (simp add: ResponseData)
  qed
next
  case ResponseFinished
  show ?thesis
  proof (cases "promise x = Fulfilled")
    case True
    from True assms(1) obtain e h ps where
      shape: "pushed (resultsStream x) = e # h # ps" "is_RequestStart e" "is_ResponseHead h"
        "parts_then_end ps"
      by (auto simp: shape_inv_iff)
    show ?thesis
    proof (cases "ended (resultsStream x) \<or> destroyed (resultsStream x)")
      case closed: True
      then have "pushed (resultsStream (on_event now ev x)) = pushed (resultsStream x)"
        using True by (simp add: ResponseFinished pushed_push pushed_push_null)
      moreover have "promise (on_event now ev x) = promise x"
        using True by (simp add: ResponseFinished)
      ultimately show ?thesis
        using assms(1) shape_inv_same by simp
    next
      case False
      then have "\<not> list_ex is_ResponseEnd (pushed (resultsStream x))"
        using assms(2) by (auto simp: flags_inv_def Let_def)
      then have "\<not> list_ex is_ResponseEnd ps"
        using shape(1) by simp
      then have "parts_then_end (ps @ [ResponseEnd now])"
        using shape(4) parts_then_end_snoc_end by blast
      then show ?thesis
        using True False shape
        by (simp add: ResponseFinished shape_inv_iff pushed_push pushed_push_null)
    qed
  next
    case False
    with assms(1) show ?thesis by (simp add: ResponseFinished)
  qed
next
  case (ResponseError e)
  have "pushed (resultsStream (on_event now ev x)) = pushed (resultsStream x)"
    by (simp add: ResponseError pushed_destroy)
  moreover have "promise (on_event now ev x) = promise x"
    by (simp add: ResponseError)
  ultimately show ?thesis
    using assms(1) shape_inv_same by simp
next
  case SignalAbort
  have "pushed (resultsStream (on_event now ev x)) = pushed (resultsStream x)"
    by (simp add: SignalAbort)
  moreover have "promise (on_event now ev x) = promise x"
    by (simp add: SignalAbort)
  ultimately show ?thesis
    using assms(1) shape_inv_same by simp
qed

lemma inv_run:
  "shape_inv x \<Longrightarrow> flags_inv x \<Longrightarrow> shape_inv (run evs x) \<and> flags_inv (run evs x)"
  by (induction evs arbitrary: x) (simp_all add: shape_inv_step flags_inv_step)

subsection \<open>Lifecycle order\<close>

lemma parts_then_end_no_start: "parts_then_end ps \<Longrightarrow> \<not> list_ex is_RequestStart ps"
  by (induction ps rule: parts_then_end.induct) simp_all

lemma parts_then_end_no_head: "parts_then_end ps \<Longrightarrow> \<not> list_ex is_ResponseHead ps"
  by (induction ps rule: parts_then_end.induct) simp_all

lemma parts_then_end_last: "parts_then_end ps \<Longrightarrow> \<not> list_ex is_ResponseEnd (butlast ps)"
  by (induction ps rule: parts_then_end.induct) simp_all

lemma no_head_dropWhile:
  "\<not> list_ex is_ResponseHead ps \<Longrightarrow> \<not> list_ex is_ResponseHead (dropWhile P ps)"
  by (induction ps) auto

lemma shape_inv_lifecycle:
  assumes "shape_inv x"
  shows "starts_with_one_RequestStart (pushed (resultsStream x))"
    and "at_most_one_ResponseHead (pushed (resultsStream x))"
    and "head_precedes_body (pushed (resultsStream x))"
    and "ResponseEnd_is_last (pushed (resultsStream x))"
proof -
  obtain e es where es: "pushed (resultsStream x) = e # es" and e: "is_RequestStart e"
    using assms by (auto simp: shape_inv_def split: list.splits)
  consider (start_only) "es = []"
    | (head) h ps where "es = h # ps" "is_ResponseHead h" "parts_then_end ps"
    using assms es by (auto simp: shape_inv_def split: list.splits if_splits)
  note shape = this
  show "starts_with_one_RequestStart (pushed (resultsStream x))"
    using shape
  proof cases
    case start_only
    with es e show ?thesis by (simp add: starts_with_one_RequestStart_def)
  next
    case head
    with es e parts_then_end_no_start [of ps] show ?thesis
      by (cases h) (simp_all add: starts_with_one_RequestStart_def)
  qed
  show "at_most_one_ResponseHead (pushed (resultsStream x))"
    using shape
  proof cases
    case start_only
    with es e show ?thesis by (cases e) (simp_all add: at_most_one_ResponseHead_def)
  next
    case head
    have "filter is_ResponseHead ps = []"
      using parts_then_end_no_head [OF head(3)] by (simp add: list_ex_iff filter_empty_conv)
    with head es e show ?thesis
      by (cases e) (simp_all add: at_most_one_ResponseHead_def)
  qed
  show "head_precedes_body (pushed (resultsStream x))"
    using shape
  proof cases
    case start_only
    with es e show ?thesis by (cases e) (simp_all add: head_precedes_body_def)
  next
    case head
    have "\<not> list_ex is_ResponseHead (dropWhile (\<lambda>e. \<not> is_ResponseBodyPart e) ps)"
      using parts_then_end_no_head [OF head(3)] by (rule no_head_dropWhile)
    with head es e show ?thesis
      by (cases e; cases h) (simp_all add: head_precedes_body_def)
  qed
  show "ResponseEnd_is_last (pushed (resultsStream x))"
    using shape
  proof cases
    case start_only
    with es show ?thesis by (simp add: ResponseEnd_is_last_def)
  next
    case head
    with es e parts_then_end_last [OF head(3)] show ?thesis
      by (cases e; cases h) (simp_all add: ResponseEnd_is_last_def)
  qed
qed




lemma silent_after_end_no_response:
  "list_all (\<lambda>e. \<not> response_event (snd e)) evs \<Longrightarrow> silent_after_end evs"
  by (induction evs) (auto simp: response_event_def)


subsection \<open>Cancellation\<close>

lemma pushed_grows_step:
  "\<exists>more. pushed (resultsStream (on_event now ev x)) = pushed (resultsStream x) @ more"
  by (cases ev) (auto simp: push_def push_null_def destroy_def)

lemma pushed_grows_run:
  "\<exists>more. pushed (resultsStream (run evs x)) = pushed (resultsStream x) @ more"
proof (induction evs arbitrary: x)
  case Nil
  show ?case by simp
next
  case (Cons ev evs)
  obtain m1 where "pushed (resultsStream (on_event (fst ev) (snd ev) x)) =
      pushed (resultsStream x) @ m1"
    using pushed_grows_step by blast
  moreover obtain m2 where "pushed (resultsStream (run evs (on_event (fst ev) (snd ev) x))) =
      pushed (resultsStream (on_event (fst ev) (snd ev) x)) @ m2"
    using Cons.IH by blast
  ultimately show ?case by simp
qed












subsection \<open>Claims about the transmitter\<close>

lemma example_creates: "creates_request example_platform example_request"
  by (simp add: creates_request_def example_platform_def example_request_def
        acceptable_headers_def flatten_js_array_Cons flatten_js_array_Nil
        checkIsHttpToken_def token_char_def checkInvalidHeaderChar_def
        invalid_header_char_def has_header_def ascii_lower_def)

lemma example_creates_body:
  "creates_request example_platform (example_request\<lparr>rawBody := Some b\<rparr>)"
  by (simp add: creates_request_def example_platform_def example_request_def
        acceptable_headers_def flatten_js_array_Cons flatten_js_array_Nil
        checkIsHttpToken_def token_char_def checkInvalidHeaderChar_def
        invalid_header_char_def has_header_def ascii_lower_def)

lemma example_not_chunked: "\<not> sends_chunked (example_request\<lparr>rawBody := b\<rparr>)"
  by (simp add: sends_chunked_def example_request_def flatten_js_array_Cons
        flatten_js_array_Nil ascii_lower_def)

lemma chunked_creates: "creates_request example_platform chunked_request"
  by (simp add: creates_request_def example_platform_def chunked_request_def
        acceptable_headers_def flatten_js_array_Cons flatten_js_array_Nil
        checkIsHttpToken_def token_char_def checkInvalidHeaderChar_def
        invalid_header_char_def has_header_def ascii_lower_def)

lemma chunked_sends_chunked: "sends_chunked (chunked_request\<lparr>rawBody := b\<rparr>)"
  by (simp add: sends_chunked_def chunked_request_def flatten_js_array_Cons
        flatten_js_array_Nil ascii_lower_def RE_TE_CHUNKED_def)

lemma chunked_creates_body:
  "creates_request example_platform (chunked_request\<lparr>rawBody := Some b\<rparr>)"
  by (simp add: creates_request_def example_platform_def chunked_request_def
        acceptable_headers_def flatten_js_array_Cons flatten_js_array_Nil
        checkIsHttpToken_def token_char_def checkInvalidHeaderChar_def
        invalid_header_char_def has_header_def ascii_lower_def)



text \<open>
  Claim C1 says that a URL whose scheme is https is sent over the TLS transport. The source
  compares \<^verbatim>\<open>url.protocol\<close> with \<^verbatim>\<open>'https'\<close>, but the protocol of a URL carries the
  trailing colon, so the comparison is false for every URL (\<open>protocol_not_https\<close>) and the
  plain transport is used for every request (\<open>sendRequest_client\<close>). Here the source is
  evaluated at \<^verbatim>\<open>https://example.com/\<close>: the protocol is \<^verbatim>\<open>'https:'\<close> and the request
  is created on the plain transport.
\<close>

theorem https_url_selects_plain_transport:
  "map_option protocol (parseURL example_platform ''https://example.com/'') = Some ''https:'' \<and>
   (\<exists>st. sendRequest example_platform
            \<lparr> method' = ''GET'', url = ''https://example.com/'', headers = [], rawBody = None \<rparr>
            \<lparr> abortSignal = None \<rparr> = Inr st \<and>
         transport (client st) = Http)"
proof
  show "map_option protocol (parseURL example_platform ''https://example.com/'') = Some ''https:''"
    by (simp add: example_platform_def protocol_def)
next
  let ?d = "\<lparr> method' = ''GET'', url = ''https://example.com/'', headers = [], rawBody = None \<rparr>"
  have "creates_request example_platform ?d"
    by (simp add: creates_request_def example_platform_def acceptable_headers_def
          flatten_js_array_Nil has_header_def)
  then obtain st where st: "sendRequest example_platform ?d \<lparr> abortSignal = None \<rparr> = Inr st"
    using sendRequest_returns by blast
  then have "transport (client st) = Http"
    by (rule sendRequest_client(1))
  with st show "\<exists>st. sendRequest example_platform ?d \<lparr> abortSignal = None \<rparr> = Inr st \<and>
      transport (client st) = Http"
    by blast
qed

text \<open>
  Claim C3. Whenever the call of \<open>sendRequest\<close> returns (\<open>creates_request\<close>: no throw of
  \<^verbatim>\<open>new URL\<close>, of \<^verbatim>\<open>request\<close> or of the header validation), the header block on the wire is
  exactly the flattened caller headers: twice as many strings as the caller gave pairs,
  the key and value of the \<open>i\<close>-th pair at \<open>2i\<close> and \<open>2i + 1\<close>, so that every header
  name on the wire is the name of a caller's header, and pairing the block gives the
  caller's list back. The \<^verbatim>\<open>Host\<close> header of the request's header map and the headers
  the transport adds by itself are not in the block.
\<close>

theorem header_block_exact:
  assumes "creates_request p d"
  shows "\<exists>st block. sendRequest p d opts = Inr st \<and>
           wire_headers (client st) = Some block \<and>
           block = flattenPairedRawHeaders (js_array (headers d)) \<and>
           length block = 2 * length (headers d) \<and>
           (\<forall>i < length (headers d).
              block ! (2 * i) = fst (headers d ! i) \<and>
              block ! (2 * i + 1) = snd (headers d ! i)) \<and>
           (\<forall>i. 2 * i < length block \<longrightarrow> block ! (2 * i) \<in> fst ` set (headers d)) \<and>
           pairFlatRawHeaders block = js_array (map defined_entry (headers d))"
proof -
  let ?block = "flattenPairedRawHeaders (js_array (headers d))"
  obtain st where st: "sendRequest p d opts = Inr st"
    using sendRequest_returns [OF assms] by blast
  have wire: "wire_headers (client st) = Some ?block"
    using st by (rule sendRequest_client(2))
  have len: "length ?block = 2 * length (headers d)"
    by (rule flatten_length)
  have pos: "\<forall>i < length (headers d).
      ?block ! (2 * i) = fst (headers d ! i) \<and> ?block ! (2 * i + 1) = snd (headers d ! i)"
    using flatten_nth by blast
  have names: "\<forall>i. 2 * i < length ?block \<longrightarrow> ?block ! (2 * i) \<in> fst ` set (headers d)"
  proof (intro allI impI)
    fix i
    assume "2 * i < length ?block"
    then have i: "i < length (headers d)"
      using len by simp
    then have "?block ! (2 * i) = fst (headers d ! i)"
      using pos by blast
    then show "?block ! (2 * i) \<in> fst ` set (headers d)"
      using i by simp
  qed
  have paired: "pairFlatRawHeaders ?block = js_array (map defined_entry (headers d))"
    by (simp add: pairFlatRawHeaders_pair_up pair_up_flatten)
  from st wire len pos names paired show ?thesis
    by blast
qed

theorem header_block_exact_witness:
  "creates_request example_platform example_request \<and>
   (\<exists>st. sendRequest example_platform example_request \<lparr> abortSignal = None \<rparr> = Inr st \<and>
         wire_headers (client st) = Some [''X-A'', ''1'', ''X-A'', ''2''])"
proof -
  obtain st block where
    "sendRequest example_platform example_request \<lparr> abortSignal = None \<rparr> = Inr st"
    and "wire_headers (client st) = Some block"
    and "block = flattenPairedRawHeaders (js_array (headers example_request))"
    using header_block_exact [OF example_creates] by blast
  moreover have "flattenPairedRawHeaders (js_array (headers example_request)) =
      [''X-A'', ''1'', ''X-A'', ''2'']"
    by (simp add: example_request_def flatten_js_array_Cons flatten_js_array_Nil)
  ultimately show ?thesis
    using example_creates by auto
qed




text \<open>
  Claim C7. Whenever the call of \<open>sendRequest\<close> returns, the stream it returns already
  holds exactly one event, the \<open>RequestStart\<close> with the readings of \<^verbatim>\<open>Date.now()\<close> and
  \<^verbatim>\<open>performance.now()\<close> taken during the call, while the promise is still pending (no
  callback has run); and after any sequence of transport events that event is still the
  first one and the only \<open>RequestStart\<close>.
\<close>

theorem request_start_pushed_synchronously:
  assumes "creates_request p d"
  shows "\<exists>st. sendRequest p d opts = Inr st \<and>
           promise st = Pending \<and>
           pushed (resultsStream st) = [RequestStart (date_now p) (performance_now p)] \<and>
           (\<forall>evs. \<exists>later.
              pushed (resultsStream (run evs st)) =
                RequestStart (date_now p) (performance_now p) # later \<and>
              \<not> list_ex is_RequestStart later)"
proof -
  obtain st where st: "sendRequest p d opts = Inr st"
    using sendRequest_returns [OF assms] by blast
  have first: "pushed (resultsStream st) = [RequestStart (date_now p) (performance_now p)]"
    by (simp add: sendRequest_stream(1) [OF st])
  have inv0: "shape_inv st" "flags_inv st"
    using st by (rule shape_inv_initial, rule flags_inv_initial)
  have "\<exists>later. pushed (resultsStream (run evs st)) =
          RequestStart (date_now p) (performance_now p) # later \<and>
          \<not> list_ex is_RequestStart later" for evs
  proof -
    obtain later where later: "pushed (resultsStream (run evs st)) =
        RequestStart (date_now p) (performance_now p) # later"
      using pushed_grows_run [of evs st] first by auto
    have "shape_inv (run evs st)"
      using inv_run [OF inv0] by blast
    then have "starts_with_one_RequestStart (pushed (resultsStream (run evs st)))"
      by (rule shape_inv_lifecycle(1))
    with later have "\<not> list_ex is_RequestStart later"
      by (simp add: starts_with_one_RequestStart_def)
    with later show ?thesis by blast
  qed
  with st first sendRequest_stream(2) [OF st] show ?thesis
    by blast
qed

theorem request_start_pushed_synchronously_witness:
  "creates_request example_platform example_request \<and>
   (\<exists>st. sendRequest example_platform example_request \<lparr> abortSignal = None \<rparr> = Inr st \<and>
         pushed (resultsStream st) = [RequestStart 1700000000000 1000])"
proof -
  obtain st where "sendRequest example_platform example_request \<lparr> abortSignal = None \<rparr> = Inr st"
    and "pushed (resultsStream st) =
         [RequestStart (date_now example_platform) (performance_now example_platform)]"
    using request_start_pushed_synchronously [OF example_creates] by blast
  then show ?thesis
    using example_creates by (auto simp: example_platform_def)
qed

text \<open>
  Claim C8, as stated, fails: a caller's \<^verbatim>\<open>Transfer-Encoding: chunked\<close> header makes the
  request chunked, and \<^verbatim>\<open>request.end()\<close> then writes the last chunk. Here the request
  definition has that header and no raw body, and the five bytes \<^verbatim>\<open>0 CR LF CR LF\<close> are
  written after the header block.
\<close>

theorem chunked_end_writes_bytes_counterexample:
  "rawBody chunked_request = None \<and>
   map_sum id (body \<circ> client)
     (sendRequest example_platform chunked_request \<lparr> abortSignal = None \<rparr>) =
   Inr [48, 13, 10, 13, 10]"
proof -
  obtain st where st: "sendRequest example_platform chunked_request \<lparr> abortSignal = None \<rparr> = Inr st"
    using sendRequest_returns [OF chunked_creates] by blast
  have none: "rawBody chunked_request = None"
    by (simp add: chunked_request_def)
  have "sends_chunked chunked_request"
    using chunked_sends_chunked [of None] none by (simp add: chunked_request_def)
  then have "body (client st) = [48, 13, 10, 13, 10]"
    using sendRequest_client(6) [OF st] none by (simp add: crlf_def)
  with st none show ?thesis
    by simp
qed

text \<open>
  Claim C8, amended. Whenever the call of \<open>sendRequest\<close> returns, the request is finished.
  When the caller's headers do not make the message chunked, the bytes written after the
  header block are the raw body if that is present and not empty, and none if it is absent
  or empty. When they do, a raw body that is present and not empty is written as one chunk
  (its length in base 16, CRLF, the bytes, CRLF), and in either case the last chunk
  \<^verbatim>\<open>0 CRLF CRLF\<close> follows.
\<close>

theorem body_written_then_ended:
  assumes "creates_request p d"
  shows "\<exists>st. sendRequest p d opts = Inr st \<and>
           finished (client st) \<and>
           (\<forall>b. \<not> sends_chunked d \<and> rawBody d = Some b \<and> b \<noteq> [] \<longrightarrow> body (client st) = b) \<and>
           (\<not> sends_chunked d \<and> (rawBody d = None \<or> rawBody d = Some []) \<longrightarrow>
              body (client st) = []) \<and>
           (\<forall>b. sends_chunked d \<and> rawBody d = Some b \<and> b \<noteq> [] \<longrightarrow>
              body (client st) =
                toString16 (length b) @ crlf @ b @ crlf @ [48] @ crlf @ crlf) \<and>
           (sends_chunked d \<and> (rawBody d = None \<or> rawBody d = Some []) \<longrightarrow>
              body (client st) = [48] @ crlf @ crlf)"
proof -
  obtain st where st: "sendRequest p d opts = Inr st"
    using sendRequest_returns [OF assms] by blast
  have "finished (client st)"
    using st by (rule sendRequest_client(3))
  moreover note sendRequest_client(6) [OF st]
  ultimately show ?thesis
    using st by (cases "rawBody d") auto
qed

theorem body_written_then_ended_witness:
  "creates_request example_platform (example_request\<lparr>rawBody := Some [104, 105]\<rparr>) \<and>
   \<not> sends_chunked (example_request\<lparr>rawBody := Some [104, 105]\<rparr>) \<and>
   (\<exists>st. sendRequest example_platform (example_request\<lparr>rawBody := Some [104, 105]\<rparr>)
           \<lparr> abortSignal = None \<rparr> = Inr st \<and>
         finished (client st) \<and> body (client st) = [104, 105]) \<and>
   creates_request example_platform example_request \<and>
   \<not> sends_chunked example_request \<and> rawBody example_request = None \<and>
   (\<exists>st. sendRequest example_platform example_request \<lparr> abortSignal = None \<rparr> = Inr st \<and>
         finished (client st) \<and> body (client st) = []) \<and>
   creates_request example_platform (chunked_request\<lparr>rawBody := Some [104, 105]\<rparr>) \<and>
   sends_chunked (chunked_request\<lparr>rawBody := Some [104, 105]\<rparr>) \<and>
   (\<exists>st. sendRequest example_platform (chunked_request\<lparr>rawBody := Some [104, 105]\<rparr>)
           \<lparr> abortSignal = None \<rparr> = Inr st \<and>
         finished (client st) \<and>
         body (client st) = [50, 13, 10, 104, 105, 13, 10, 48, 13, 10, 13, 10]) \<and>
   creates_request example_platform chunked_request \<and>
   sends_chunked chunked_request \<and> rawBody chunked_request = None \<and>
   (\<exists>st. sendRequest example_platform chunked_request \<lparr> abortSignal = None \<rparr> = Inr st \<and>
         finished (client st) \<and> body (client st) = [48, 13, 10, 13, 10])"
proof -
  let ?o = "\<lparr> abortSignal = None \<rparr>"
  let ?d1 = "example_request\<lparr>rawBody := Some [104, 105]\<rparr>"
  let ?d3 = "chunked_request\<lparr>rawBody := Some [104, 105]\<rparr>"
  have raw1: "rawBody ?d1 = Some [104, 105]" and raw3: "rawBody ?d3 = Some [104, 105]"
    and ne: "[104, 105 :: 8 word] \<noteq> []"
    by simp_all
  have none2: "rawBody example_request = None" and none4: "rawBody chunked_request = None"
    by (simp_all add: example_request_def chunked_request_def)
  have plain1: "\<not> sends_chunked ?d1"
    by (rule example_not_chunked)
  have plain2: "\<not> sends_chunked example_request"
    using example_not_chunked [of None] none2 by (simp add: example_request_def)
  have ch3: "sends_chunked ?d3"
    by (rule chunked_sends_chunked)
  have ch4: "sends_chunked chunked_request"
    using chunked_sends_chunked [of None] none4 by (simp add: chunked_request_def)
  have two: "toString16 (Suc (Suc 0)) = [50]"
    by (simp add: toString16.simps hex_digit_def)
  have w1: "\<exists>st. sendRequest example_platform ?d1 ?o = Inr st \<and>
         finished (client st) \<and> body (client st) = [104, 105]"
    using body_written_then_ended [OF example_creates_body, of "[104, 105]" ?o] raw1 ne plain1
    by blast
  have w2: "\<exists>st. sendRequest example_platform example_request ?o = Inr st \<and>
         finished (client st) \<and> body (client st) = []"
    using body_written_then_ended [OF example_creates, of ?o] none2 plain2
    by blast
  have "\<exists>st. sendRequest example_platform ?d3 ?o = Inr st \<and>
         finished (client st) \<and>
         body (client st) =
           toString16 (length [104, 105 :: 8 word]) @ crlf @ [104, 105] @ crlf @ [48] @ crlf @ crlf"
    using body_written_then_ended [OF chunked_creates_body, of "[104, 105]" ?o] raw3 ne ch3
    by blast
  then have w3: "\<exists>st. sendRequest example_platform ?d3 ?o = Inr st \<and>
         finished (client st) \<and>
         body (client st) = [50, 13, 10, 104, 105, 13, 10, 48, 13, 10, 13, 10]"
    by (simp add: two crlf_def)
  have "\<exists>st. sendRequest example_platform chunked_request ?o = Inr st \<and>
         finished (client st) \<and> body (client st) = [48] @ crlf @ crlf"
    using body_written_then_ended [OF chunked_creates, of ?o] none4 ch4
    by blast
  then have w4: "\<exists>st. sendRequest example_platform chunked_request ?o = Inr st \<and>
         finished (client st) \<and> body (client st) = [48, 13, 10, 13, 10]"
    by (simp add: crlf_def)
  from example_creates_body [of "[104, 105]"] plain1 w1 example_creates plain2 none2 w2
    chunked_creates_body [of "[104, 105]"] ch3 w3 chunked_creates ch4 none4 w4
  show ?thesis
    by blast
qed




end
